theory Spec2Isabelle
  imports Main
begin

section \<open>Strings\<close>

text \<open>
  A JavaScript string is modelled as a \<^typ>\<open>string\<close>: a list of characters, each standing
  for one code unit below 256. Over that range \<open>String.prototype.toLowerCase\<close> moves the
  letters \<open>A\<close>..\<open>Z\<close> and the accented capitals 0xC0..0xDE (the multiplication sign 0xD7
  apart) up by 32 and leaves every other code unit alone.
\<close>

definition lowerChar :: "char \<Rightarrow> char" where
  "lowerChar c =
     (let n = (of_char c :: nat)
      in if (65 \<le> n \<and> n \<le> 90) \<or> (192 \<le> n \<and> n \<le> 222 \<and> n \<noteq> 215)
         then char_of (n + 32) else c)"

definition toLowerCase :: "string \<Rightarrow> string" where
  "toLowerCase s = map lowerChar s"

text \<open>\<open>s.startsWith(sub)\<close> and \<open>s.includes(sub)\<close>: \<open>sub\<close> occurs as a contiguous run.\<close>

fun startsWith :: "string \<Rightarrow> string \<Rightarrow> bool" where
  "startsWith s [] = True"
| "startsWith [] (c # cs) = False"
| "startsWith (d # ds) (c # cs) = (d = c \<and> startsWith ds cs)"

fun includesStr :: "string \<Rightarrow> string \<Rightarrow> bool" where
  "includesStr [] sub = (sub = [])"
| "includesStr (d # ds) sub = (startsWith (d # ds) sub \<or> includesStr ds sub)"


section \<open>Tick utilities (utils.ts)\<close>

text \<open>
  \<open>removeTicks(s, tickChar)\<close> is \<open>s.replace(new RegExp(tickChar, 'g'), '')\<close>. Every caller
  passes a single character that is no regular-expression metacharacter (the backtick, the
  double quote), so the pattern matches exactly the occurrences of that character.
\<close>

definition TICK_CHAR :: char where
  "TICK_CHAR = CHR ''`''"

definition removeTicks :: "string \<Rightarrow> char \<Rightarrow> string" where
  "removeTicks s tickChar = filter (\<lambda>c. c \<noteq> tickChar) s"

definition addTicks :: "string \<Rightarrow> char \<Rightarrow> string" where
  "addTicks s tickChar = [tickChar] @ removeTicks s tickChar @ [tickChar]"

section \<open>Identifier quoting (quote helpers)\<close>

definition postgresReservedWords :: "string list" where
  "postgresReservedWords = [
   ''all'', ''analyse'', ''analyze'', ''and'', ''any'', ''array'', ''as'', ''asc'',
   ''asymmetric'', ''authorization'', ''binary'', ''both'', ''case'', ''cast'', ''check'',
   ''collate'', ''collation'', ''column'', ''concurrently'', ''constraint'', ''create'',
   ''cross'', ''current_catalog'', ''current_date'', ''current_role'', ''current_schema'',
   ''current_time'', ''current_timestamp'', ''current_user'', ''default'', ''deferrable'',
   ''desc'', ''distinct'', ''do'', ''else'', ''end'', ''except'', ''false'', ''fetch'',
   ''for'', ''foreign'', ''freeze'', ''from'', ''full'', ''grant'', ''group'', ''having'',
   ''ilike'', ''in'', ''initially'', ''inner'', ''intersect'', ''into'', ''is'', ''isnull'',
   ''join'', ''lateral'', ''leading'', ''left'', ''like'', ''limit'', ''localtime'',
   ''localtimestamp'', ''natural'', ''not'', ''notnull'', ''null'', ''offset'', ''on'',
   ''only'', ''or'', ''order'', ''outer'', ''overlaps'', ''placing'', ''primary'',
   ''references'', ''returning'', ''right'', ''select'', ''session_user'', ''similar'',
   ''some'', ''symmetric'', ''table'', ''tablesample'', ''then'', ''to'', ''trailing'',
   ''true'', ''union'', ''unique'', ''user'', ''using'', ''variadic'', ''verbose'', ''when'',
   ''where'', ''window'', ''with'']"

text \<open>
  A property of the options object is absent, present with the value \<open>undefined\<close>, or
  present with a boolean. The whole argument may be left out (\<open>None\<close>).
\<close>

datatype 'a optional = Omitted | ExplicitUndefined | Given 'a

record QuoteIdentifierOptions =
  force :: "bool optional"
  quoteIdentifiers :: "bool optional"

text \<open>
  \<open>{ force: false, quoteIdentifiers: true, ...options }\<close>: a property that is present in
  \<open>options\<close> overrides the default, also when its value is \<open>undefined\<close> (\<open>None\<close> below).
\<close>

definition spreadOver :: "bool \<Rightarrow> bool optional \<Rightarrow> bool option" where
  "spreadOver dflt p = (case p of Omitted \<Rightarrow> Some dflt | ExplicitUndefined \<Rightarrow> None | Given b \<Rightarrow> Some b)"

definition optionsForce :: "QuoteIdentifierOptions option \<Rightarrow> bool option" where
  "optionsForce options = (case options of None \<Rightarrow> Some False | Some opts \<Rightarrow> spreadOver False (force opts))"

definition optionsQuoteIdentifiers :: "QuoteIdentifierOptions option \<Rightarrow> bool option" where
  "optionsQuoteIdentifiers options =
     (case options of None \<Rightarrow> Some True | Some opts \<Rightarrow> spreadOver True (quoteIdentifiers opts))"

datatype error = Error string

abbreviation dquote :: char where
  "dquote \<equiv> CHR 0x22"

definition unsupportedMessage :: "string \<Rightarrow> string" where
  "unsupportedMessage dialect = ''Dialect '' @ [dquote] @ dialect @ [dquote] @ '' is not supported''"

definition mssqlStrip :: "string \<Rightarrow> string" where
  "mssqlStrip identifier =
     filter (\<lambda>c. c \<noteq> CHR ''['' \<and> c \<noteq> CHR '']'' \<and> c \<noteq> CHR 0x27) identifier"

definition postgresUnquoted :: "string \<Rightarrow> QuoteIdentifierOptions option \<Rightarrow> bool" where
  "postgresUnquoted identifier options =
     (optionsForce options \<noteq> Some True \<and>
      optionsQuoteIdentifiers options = Some False \<and>
      \<not> includesStr identifier ''.'' \<and>
      \<not> includesStr identifier ''->'' \<and>
      toLowerCase (removeTicks identifier dquote) \<notin> set postgresReservedWords)"

definition quoteIdentifier ::
  "string \<Rightarrow> string \<Rightarrow> QuoteIdentifierOptions option \<Rightarrow> error + string" where
  "quoteIdentifier dialect identifier options =
     (if identifier = ''*'' then Inr identifier
      else if dialect = ''sqlite'' \<or> dialect = ''mariadb'' \<or> dialect = ''mysql''
        then Inr (addTicks (removeTicks identifier (CHR ''`'')) (CHR ''`''))
      else if dialect = ''postgres''
        then (let rawIdentifier = removeTicks identifier dquote
              in if postgresUnquoted identifier options
                 then Inr rawIdentifier
                 else Inr (addTicks rawIdentifier dquote))
      else if dialect = ''mssql''
        then Inr (''['' @ mssqlStrip identifier @ '']'')
      else Inl (Error (unsupportedMessage dialect)))"

section \<open>Deterministic table-name combination (utils.ts)\<close>


section \<open>JavaScript values\<close>

text \<open>
  The option trees these utilities walk are modelled as finite trees. A property key is a
  string or a symbol; \<open>OpKey n\<close> is the symbol \<open>Op[n]\<close> of the operator registry (a member of
  \<open>operatorsSet\<close>), \<open>SymKey n\<close> any other symbol. The properties of an object are listed in
  enumeration order, each key once.

  Arrays and plain objects carry no identity: the model does not tell a structural copy
  from the original. Every other object and every function carries a reference, so that
  handing the very same object on can be told from handing on a copy of it; \<open>CloneOf r\<close>
  is the reference of a copy made of the object at \<open>r\<close> (by the \<open>clone\<close> method of an \<open>Fn\<close>,
  by lodash's \<open>cloneBuffer\<close> or \<open>cloneTypedArray\<close>).
  \<^item> \<open>JFn r fn args\<close> is an instance of the class \<open>Fn\<close> with its fields \<open>fn\<close> and \<open>args\<close>;
  \<^item> \<open>JBinary r bs\<close> is a \<open>Buffer\<close> or typed array with its elements;
  \<^item> \<open>JArguments r xs\<close> is an \<open>arguments\<close> object with its elements;
  \<^item> \<open>JInstance r props c\<close> is any other object that is neither an array nor a plain
    object (a class instance, a \<open>Date\<close>, ...), with its own enumerable properties; \<open>c\<close> is
    \<open>Some v\<close> when the object has a callable \<open>clone\<close> property, \<open>v\<close> being what the call returns;
  \<^item> \<open>JFunction r native props c\<close> is a function, \<open>native\<close> when it is a built-in of the
    platform, with \<open>props\<close> and \<open>c\<close> as for instances.
  Numbers are the integers. Reading a property that an object does not own yields
  \<open>undefined\<close>: what an object inherits from \<open>Object.prototype\<close> (\<open>toString\<close>,
  \<open>constructor\<close>, ...) is outside the model, and keys are taken to differ from those names.
\<close>

datatype ref = Ref nat | CloneOf ref

datatype pkey = StrKey string | OpKey string | SymKey string

datatype jsval =
    JUndefined | JNull | JBool bool | JNum int | JStr string
  | JArray "jsval list"
  | JPlain "(pkey \<times> jsval) list"
  | JFn ref string jsval
  | JBinary ref "int list"
  | JArguments ref "jsval list"
  | JInstance ref "(pkey \<times> jsval) list" "jsval option"
  | JFunction ref bool "(pkey \<times> jsval) list" "jsval option"

type_synonym props = "(pkey \<times> jsval) list"

fun typeof :: "jsval \<Rightarrow> string" where
  "typeof JUndefined = ''undefined''"
| "typeof JNull = ''object''"
| "typeof (JBool b) = ''boolean''"
| "typeof (JNum n) = ''number''"
| "typeof (JStr s) = ''string''"
| "typeof (JArray xs) = ''object''"
| "typeof (JPlain ps) = ''object''"
| "typeof (JFn r fn args) = ''object''"
| "typeof (JBinary r bs) = ''object''"
| "typeof (JArguments r xs) = ''object''"
| "typeof (JInstance r ps c) = ''object''"
| "typeof (JFunction r native ps c) = ''function''"

fun isArray :: "jsval \<Rightarrow> bool" where
  "isArray (JArray xs) = True"
| "isArray v = False"

fun isPlainObject :: "jsval \<Rightarrow> bool" where
  "isPlainObject (JPlain ps) = True"
| "isPlainObject v = False"



fun truthy :: "jsval \<Rightarrow> bool" where
  "truthy JUndefined = False"
| "truthy JNull = False"
| "truthy (JBool b) = b"
| "truthy (JNum n) = (n \<noteq> 0)"
| "truthy (JStr s) = (s \<noteq> [])"
| "truthy v = True"

text \<open>Reading, writing and deleting a property of a property list.\<close>

fun getProp :: "props \<Rightarrow> pkey \<Rightarrow> jsval" where
  "getProp [] k = JUndefined"
| "getProp (p # ps) k = (if fst p = k then snd p else getProp ps k)"

fun hasProp :: "props \<Rightarrow> pkey \<Rightarrow> bool" where
  "hasProp [] k = False"
| "hasProp (p # ps) k = (fst p = k \<or> hasProp ps k)"

fun setProp :: "props \<Rightarrow> pkey \<Rightarrow> jsval \<Rightarrow> props" where
  "setProp [] k v = [(k, v)]"
| "setProp (p # ps) k v = (if fst p = k then (k, v) # ps else p # setProp ps k v)"

definition deleteProp :: "props \<Rightarrow> pkey \<Rightarrow> props" where
  "deleteProp ps k = filter (\<lambda>p. fst p \<noteq> k) ps"

text \<open>\<open>Object.keys\<close> lists the string keys only.\<close>

fun stringEntries :: "props \<Rightarrow> (string \<times> jsval) list" where
  "stringEntries [] = []"
| "stringEntries ((StrKey s, v) # ps) = (s, v) # stringEntries ps"
| "stringEntries (p # ps) = stringEntries ps"

text \<open>The decimal numeral of an array index.\<close>

definition digit :: "nat \<Rightarrow> char" where
  "digit d = char_of (48 + d)"

function showNat :: "nat \<Rightarrow> string" where
  "showNat n = (if n < 10 then [digit n] else showNat (n div 10) @ [digit (n mod 10)])"
  by pat_completeness auto
termination
  by (relation "measure id") auto

declare showNat.simps [simp del]

fun indexed :: "nat \<Rightarrow> jsval list \<Rightarrow> (string \<times> jsval) list" where
  "indexed i [] = []"
| "indexed i (x # xs) = (showNat i, x) # indexed (Suc i) xs"

text \<open>
  \<open>Object.keys(obj)\<close> paired with \<open>obj[key]\<close>, for a value of type \<open>object\<close>: the indices of
  an array, of a \<open>Buffer\<close> or typed array and of an \<open>arguments\<close> object, the string keys
  of an object, the two public fields of an \<open>Fn\<close>.
\<close>

fun ownEntries :: "jsval \<Rightarrow> (string \<times> jsval) list" where
  "ownEntries (JArray xs) = indexed 0 xs"
| "ownEntries (JPlain ps) = stringEntries ps"
| "ownEntries (JFn r fn args) = [(''fn'', JStr fn), (''args'', args)]"
| "ownEntries (JBinary r bs) = indexed 0 (map JNum bs)"
| "ownEntries (JArguments r xs) = indexed 0 xs"
| "ownEntries (JInstance r ps c) = stringEntries ps"
| "ownEntries (JFunction r native ps c) = stringEntries ps"
| "ownEntries v = []"

section \<open>cloneDeep (utils.ts)\<close>

text \<open>
  \<open>elem.clone\<close>, when it is a function, and what calling it returns. The \<open>clone\<close> method of
  \<open>Fn\<close> builds \<open>new Fn(this.fn, this.args)\<close>: another object with the same fields.
\<close>

fun cloneMethod :: "jsval \<Rightarrow> jsval option" where
  "cloneMethod (JFn r fn args) = Some (JFn (CloneOf r) fn args)"
| "cloneMethod (JInstance r ps c) = c"
| "cloneMethod (JFunction r native ps c) = c"
| "cloneMethod v = None"

text \<open>The customizer that \<open>cloneDeep\<close> hands to \<open>cloneDeepWith\<close>; \<open>JUndefined\<close> is its \<open>undefined\<close>.\<close>

definition cloneCustomizer :: "bool \<Rightarrow> jsval \<Rightarrow> jsval" where
  "cloneCustomizer onlyPlain elem =
     (if isArray elem \<or> isPlainObject elem then JUndefined
      else if onlyPlain \<or> typeof elem = ''object'' then elem
      else if truthy elem \<and> cloneMethod elem \<noteq> None then the (cloneMethod elem)
      else JUndefined)"

text \<open>
  lodash \<open>cloneDeepWith\<close> (\<open>baseClone\<close>, deep, symbols included), on trees: the customizer
  is asked first and any answer but \<open>undefined\<close> is the clone; a primitive is returned as
  it is; an array or plain object is rebuilt from the clones of its members; a function
  is returned as it is below the root and becomes a plain object of its cloned properties
  at the root. How lodash copies other objects the customizer leaves to it (by tag) is
  the parameter \<open>byTag\<close>.
\<close>

fun baseClone :: "(jsval \<Rightarrow> jsval) \<Rightarrow> (jsval \<Rightarrow> jsval) \<Rightarrow> bool \<Rightarrow> jsval \<Rightarrow> jsval" where
  "baseClone customizer byTag nested value =
     (let result = customizer value
      in if result \<noteq> JUndefined then result
         else (case value of
             JArray xs \<Rightarrow> JArray (map (baseClone customizer byTag True) xs)
           | JPlain ps \<Rightarrow>
               JPlain (map (\<lambda>p. (fst p, baseClone customizer byTag True (snd p))) ps)
           | JFunction r native ps c \<Rightarrow>
               if nested then value
               else JPlain (map (\<lambda>p. (fst p, baseClone customizer byTag True (snd p))) ps)
           | JFn r fn args \<Rightarrow> byTag value
           | JBinary r bs \<Rightarrow> byTag value
           | JArguments r xs \<Rightarrow> byTag value
           | JInstance r ps c \<Rightarrow> byTag value
           | _ \<Rightarrow> value))"

declare baseClone.simps [simp del]

definition cloneDeepWith :: "(jsval \<Rightarrow> jsval) \<Rightarrow> jsval \<Rightarrow> (jsval \<Rightarrow> jsval) \<Rightarrow> jsval" where
  "cloneDeepWith byTag value customizer = baseClone customizer byTag False value"

definition cloneDeep :: "(jsval \<Rightarrow> jsval) \<Rightarrow> jsval \<Rightarrow> bool \<Rightarrow> jsval" where
  "cloneDeep byTag obj onlyPlain =
     cloneDeepWith byTag (if truthy obj then obj else JPlain []) (cloneCustomizer onlyPlain)"

section \<open>flattenObjectDeep (utils.ts)\<close>

text \<open>
  The traversals below end because the entries of a value that are of type \<open>object\<close> are
  smaller than the value.
\<close>

lemma stringEntries_size:
  "(k, v) \<in> set (stringEntries ps) \<Longrightarrow>
     size v < Suc (size_list (size_prod (\<lambda>x. 0) size) ps)"
  by (induction ps rule: stringEntries.induct) auto

lemma indexed_member: "(k, v) \<in> set (indexed i xs) \<Longrightarrow> v \<in> set xs"
  by (induction xs arbitrary: i) auto

lemma member_size: "v \<in> set xs \<Longrightarrow> size v < Suc (size_list size xs)"
  by (induction xs) auto

lemma indexed_size: "(k, v) \<in> set (indexed i xs) \<Longrightarrow> size v < Suc (size_list size xs)"
  by (rule member_size) (rule indexed_member)

lemma indexed_numbers: "(k, v) \<in> set (indexed i (map JNum bs)) \<Longrightarrow> typeof v = ''number''"
  using indexed_member [of k v i "map JNum bs"] by auto

lemma ownEntries_size:
  "p \<in> set (ownEntries obj) \<Longrightarrow> typeof (snd p) = ''object'' \<Longrightarrow> size (snd p) < size obj"
  by (cases obj; cases p) (auto dest: stringEntries_size indexed_size indexed_numbers)

text \<open>
  The inner function \<open>flattenObject(obj, subPath)\<close> writes into the object \<open>flattenedObj\<close> of
  the enclosing call and returns it; here that object is passed along. \<open>subPath\<close> is
  \<open>None\<close> for \<open>undefined\<close>; \<open>get(obj, key)\<close> on an own key is \<open>obj[key]\<close>.
\<close>

function flattenObject :: "jsval \<Rightarrow> string option \<Rightarrow> props \<Rightarrow> props" where
  "flattenObject obj subPath flattenedObj =
     fold (\<lambda>p acc.
            let key = fst p;
                pathToProperty =
                  (case subPath of None \<Rightarrow> key
                   | Some s \<Rightarrow> if s \<noteq> [] then s @ ''.'' @ key else key)
            in if typeof (snd p) = ''object'' \<and> snd p \<noteq> JNull
               then flattenObject (snd p) (Some pathToProperty) acc
               else setProp acc (StrKey pathToProperty) (snd p))
       (ownEntries obj) flattenedObj"
  by pat_completeness auto
termination
  by (relation "measure (\<lambda>(obj, subPath, acc). size obj)") (auto dest: ownEntries_size)

declare flattenObject.simps [simp del]

definition flattenObjectDeep :: "jsval \<Rightarrow> jsval" where
  "flattenObjectDeep v = (if \<not> isPlainObject v then v else JPlain (flattenObject v None []))"

section \<open>The model's field metadata\<close>

text \<open>
  The model class is an outside collaborator. What these utilities read of it is
  \<open>Model.rawAttributes\<close>, from attribute name to \<open>{field, fieldName, type}\<close>, and the set
  \<open>Model._virtualAttributes\<close>. Of the declared type only \<open>type instanceof DataTypes.HSTORE\<close>
  and \<open>type instanceof DataTypes.JSON\<close> are asked (a subclass of \<open>JSON\<close> counts as \<open>JSON\<close>).
\<close>

datatype dataType = HSTORE | JSON | OtherType string

record rawAttribute =
  field :: string
  fieldName :: string
  type :: dataType

record Model =
  rawAttributes :: "string \<rightharpoonup> rawAttribute"
  virtualAttributes :: "string set"

section \<open>mapValueFieldNames (utils.ts)\<close>

text \<open>
  \<open>dataValues\<close> and the result \<open>values\<close> are keyed structures, given by their properties; the
  parameter \<open>fields\<close> is \<open>fieldsList\<close> here.
\<close>

definition mapValueFieldNames :: "props \<Rightarrow> string list \<Rightarrow> Model \<Rightarrow> props" where
  "mapValueFieldNames dataValues fieldsList model =
     fold (\<lambda>attr values.
            if getProp dataValues (StrKey attr) \<noteq> JUndefined \<and> attr \<notin> virtualAttributes model
            then (case rawAttributes model attr of
                    Some ra \<Rightarrow>
                      if field ra \<noteq> [] \<and> field ra \<noteq> attr
                      then setProp values (StrKey (field ra)) (getProp dataValues (StrKey attr))
                      else setProp values (StrKey attr) (getProp dataValues (StrKey attr))
                  | None \<Rightarrow> setProp values (StrKey attr) (getProp dataValues (StrKey attr)))
            else values)
       fieldsList []"

section \<open>mapOptionFieldNames and mapWhereFieldNames (utils.ts)\<close>

text \<open>
  \<open>getOperators\<close> keeps the own symbols that are in the operator registry;
  \<open>getComplexKeys\<close> puts them in front of \<open>Object.keys\<close>.
\<close>

fun getOperators :: "props \<Rightarrow> pkey list" where
  "getOperators [] = []"
| "getOperators ((OpKey s, v) # ps) = OpKey s # getOperators ps"
| "getOperators (p # ps) = getOperators ps"

definition getComplexKeys :: "props \<Rightarrow> pkey list" where
  "getComplexKeys obj = getOperators obj @ map StrKey (map fst (stringEntries obj))"

text \<open>
  The options object, as far as the mapper reads it: \<open>attributes\<close> and \<open>where\<close> (the field
  \<open>whereClause\<close>).
\<close>

record finderOptions =
  attributes :: jsval
  whereClause :: jsval

definition mapAttribute :: "Model \<Rightarrow> jsval \<Rightarrow> jsval" where
  "mapAttribute model attr =
     (case attr of
        JStr s \<Rightarrow>
          (case rawAttributes model s of
             Some ra \<Rightarrow> if s \<noteq> field ra then JArray [JStr (field ra), JStr s] else attr
           | None \<Rightarrow> attr)
      | _ \<Rightarrow> attr)"

definition lookupRaw :: "Model \<Rightarrow> pkey \<Rightarrow> rawAttribute option" where
  "lookupRaw model attribute = (case attribute of StrKey s \<Rightarrow> rawAttributes model s | _ \<Rightarrow> None)"

definition renameKey :: "rawAttribute option \<Rightarrow> pkey \<Rightarrow> props \<Rightarrow> props" where
  "renameKey rawAttr attribute attrs =
     (case rawAttr of
        Some ra \<Rightarrow>
          if field ra \<noteq> fieldName ra
          then deleteProp (setProp attrs (StrKey (field ra)) (getProp attrs attribute)) attribute
          else attrs
      | None \<Rightarrow> attrs)"

definition exemptType :: "rawAttribute option \<Rightarrow> bool" where
  "exemptType rawAttr = (case rawAttr of Some ra \<Rightarrow> type ra = HSTORE \<or> type ra = JSON | None \<Rightarrow> False)"

text \<open>
  The two mappers call each other through the nesting of the where clause. The first
  argument bounds the depth of these calls; \<open>None\<close> means the bound was too small
  (\<open>mapWhereFieldNames_returns\<close> below: a bound above twice the nesting depth is enough, and
  a larger one gives the same result). The objects are updated in place by the source
  and passed on as values here, so the model covers option trees in which no object is
  reachable twice. The argument of \<open>mapWhereFieldNames\<close> is a plain keyed structure, as at
  every call in this file, so its test \<open>if (attributes)\<close> holds.
\<close>

definition andThen :: "'a option \<Rightarrow> ('a \<Rightarrow> 'b option) \<Rightarrow> 'b option" where
  "andThen r f = (case r of None \<Rightarrow> None | Some x \<Rightarrow> f x)"

text \<open>
  The body of the \<open>forEach\<close> over the complex keys, for one key and the current state of
  \<open>attributes\<close>; \<open>mapOptions\<close> and \<open>mapWhere\<close> stand for the two recursive calls.
\<close>

definition whereStep ::
  "(finderOptions \<Rightarrow> finderOptions option) \<Rightarrow> (props \<Rightarrow> props option) \<Rightarrow> Model \<Rightarrow>
   pkey \<Rightarrow> props \<Rightarrow> props option" where
  "whereStep mapOptions mapWhere model attribute attrs0 =
     (let rawAttr = lookupRaw model attribute;
          attrs1 = renameKey rawAttr attribute attrs0
      in andThen
           (if isPlainObject (getProp attrs1 attribute) \<and> \<not> exemptType rawAttr
            then map_option (\<lambda>opts. setProp attrs1 attribute (whereClause opts))
                   (mapOptions \<lparr>attributes = JUndefined, whereClause = getProp attrs1 attribute\<rparr>)
            else Some attrs1)
           (\<lambda>attrs2.
              case getProp attrs2 attribute of
                JArray wheres \<Rightarrow>
                  map_option (\<lambda>ws. setProp attrs2 attribute (JArray ws))
                    (those (map (\<lambda>w. case w of
                                        JPlain p \<Rightarrow> map_option JPlain (mapWhere p)
                                      | _ \<Rightarrow> Some w) wheres))
              | _ \<Rightarrow> Some attrs2))"

fun mapOptionFieldNames :: "nat \<Rightarrow> finderOptions \<Rightarrow> Model \<Rightarrow> finderOptions option"
  and mapWhereFieldNames :: "nat \<Rightarrow> props \<Rightarrow> Model \<Rightarrow> props option" where
  "mapOptionFieldNames 0 options model = None"
| "mapOptionFieldNames (Suc n) options model =
     (let options1 =
            (case attributes options of
               JArray attrs \<Rightarrow> options\<lparr>attributes := JArray (map (mapAttribute model) attrs)\<rparr>
             | _ \<Rightarrow> options)
      in case whereClause options1 of
           JPlain w \<Rightarrow>
             map_option (\<lambda>w'. options1\<lparr>whereClause := JPlain w'\<rparr>) (mapWhereFieldNames n w model)
         | _ \<Rightarrow> Some options1)"
| "mapWhereFieldNames 0 attrs model = None"
| "mapWhereFieldNames (Suc n) attrs model =
     fold (\<lambda>attribute state.
            andThen state
              (whereStep (\<lambda>opts. mapOptionFieldNames n opts model)
                 (\<lambda>w. mapWhereFieldNames n w model) model attribute))
       (getComplexKeys attrs) (Some attrs)"

section \<open>mergeDefaults (utils.ts)\<close>












section \<open>Reference descriptions\<close>

text \<open>
  The functions of this section are not translations of source functions: they state,
  directly on the tree, what the theorems below prove the translated functions compute.
\<close>

text \<open>
  What \<open>cloneDeep\<close> (with \<open>onlyPlain\<close> not set) leaves at a place below the root: arrays and
  plain objects are rebuilt member by member; a function whose \<open>clone\<close> method returns
  something other than \<open>undefined\<close> is replaced by that result; everything else, the objects
  that are neither arrays nor plain included, is the value itself.
\<close>

fun sharedOrCloned :: "jsval \<Rightarrow> jsval" where
  "sharedOrCloned (JArray xs) = JArray (map sharedOrCloned xs)"
| "sharedOrCloned (JPlain ps) = JPlain (map (\<lambda>p. (fst p, sharedOrCloned (snd p))) ps)"
| "sharedOrCloned (JFunction r native ps c) =
     (case c of
        Some v \<Rightarrow> if v \<noteq> JUndefined then v else JFunction r native ps c
      | None \<Rightarrow> JFunction r native ps c)"
| "sharedOrCloned v = v"

text \<open>
  The leaves of a value of type \<open>object\<close> with their paths, in the order of the traversal:
  the own string keys are followed through every value of type \<open>object\<close> other than \<open>null\<close>
  (plain objects, arrays by index, any other object), and the keys along the way are
  joined with dots. A path so far that is empty counts as no path.
\<close>

definition joinPath :: "string option \<Rightarrow> string \<Rightarrow> string" where
  "joinPath subPath key =
     (case subPath of None \<Rightarrow> key | Some s \<Rightarrow> if s \<noteq> [] then s @ ''.'' @ key else key)"

function leafPaths :: "jsval \<Rightarrow> string option \<Rightarrow> (string \<times> jsval) list" where
  "leafPaths obj subPath =
     concat (map (\<lambda>p. if typeof (snd p) = ''object'' \<and> snd p \<noteq> JNull
                       then leafPaths (snd p) (Some (joinPath subPath (fst p)))
                       else [(joinPath subPath (fst p), snd p)])
               (ownEntries obj))"
  by pat_completeness auto
termination
  by (relation "measure (\<lambda>(obj, subPath). size obj)") (auto dest: ownEntries_size)

declare leafPaths.simps [simp del]

text \<open>Writing a list of entries into an object, one after the other.\<close>

definition assignAll :: "(string \<times> jsval) list \<Rightarrow> props \<Rightarrow> props" where
  "assignAll entries object = fold (\<lambda>p obj. setProp obj (StrKey (fst p)) (snd p)) entries object"

text \<open>
  For \<open>mapValueFieldNames\<close>: a name is carried over when its value in \<open>dataValues\<close> is not
  \<open>undefined\<close> and it is no virtual attribute; it is stored under the declared physical
  field when that is not empty and differs from the name, and under the name otherwise.
\<close>

definition carriedOver :: "props \<Rightarrow> Model \<Rightarrow> string \<Rightarrow> bool" where
  "carriedOver dataValues model attr =
     (getProp dataValues (StrKey attr) \<noteq> JUndefined \<and> attr \<notin> virtualAttributes model)"

definition storedUnder :: "Model \<Rightarrow> string \<Rightarrow> string" where
  "storedUnder model attr =
     (case rawAttributes model attr of
        Some ra \<Rightarrow> if field ra \<noteq> [] \<and> field ra \<noteq> attr then field ra else attr
      | None \<Rightarrow> attr)"




text \<open>
  The nesting depth of a value through arrays and plain objects, and the largest depth
  among the values of a property list.
\<close>

fun depth :: "jsval \<Rightarrow> nat" where
  "depth (JArray xs) = Suc (foldr max (map depth xs) 0)"
| "depth (JPlain ps) = Suc (foldr max (map (\<lambda>p. depth (snd p)) ps) 0)"
| "depth v = 0"

definition depthProps :: "props \<Rightarrow> nat" where
  "depthProps ps = foldr max (map (\<lambda>p. depth (snd p)) ps) 0"

section \<open>Properties of the string primitives\<close>

lemma startsWith_iff: "startsWith s sub \<longleftrightarrow> (\<exists>q. s = sub @ q)"
  by (induction s sub rule: startsWith.induct) auto

lemma includesStr_iff: "includesStr s sub \<longleftrightarrow> (\<exists>p q. s = p @ sub @ q)"
proof (induction s)
  case Nil
  then show ?case by simp
next
  case (Cons d ds)
  show ?case
  proof
    assume "includesStr (d # ds) sub"
    then consider "startsWith (d # ds) sub" | "includesStr ds sub" by auto
    then show "\<exists>p q. d # ds = p @ sub @ q"
    proof cases
      case 1
      then obtain q where "d # ds = sub @ q" by (auto simp: startsWith_iff)
      then have "d # ds = [] @ sub @ q" by simp
      then show ?thesis by blast
    next
      case 2
      then obtain p q where "ds = p @ sub @ q" using Cons.IH by blast
      then have "d # ds = (d # p) @ sub @ q" by simp
      then show ?thesis by blast
    qed
  next
    assume "\<exists>p q. d # ds = p @ sub @ q"
    then obtain p q where pq: "d # ds = p @ sub @ q" by blast
    show "includesStr (d # ds) sub"
    proof (cases p)
      case Nil
      with pq have "startsWith (d # ds) sub" by (auto simp: startsWith_iff)
      then show ?thesis by simp
    next
      case (Cons e es)
      with pq have "ds = es @ sub @ q" by simp
      then have "includesStr ds sub" using Cons.IH by blast
      then show ?thesis by simp
    qed
  qed
qed

lemma includesStr_single: "includesStr s [c] \<longleftrightarrow> c \<in> set s"
  by (induction s) auto




lemma removeTicks_idem: "removeTicks (removeTicks s c) c = removeTicks s c"
  by (simp add: removeTicks_def)

lemma removeTicks_free: "c \<notin> set (removeTicks s c)"
  by (simp add: removeTicks_def)

lemma addTicks_removeTicks: "addTicks (removeTicks s c) c = [c] @ removeTicks s c @ [c]"
  by (simp add: addTicks_def removeTicks_idem)

lemma removeTicks_wrapped: "removeTicks ([c] @ removeTicks s c @ [c]) c = removeTicks s c"
  by (simp add: removeTicks_def)

lemma mssqlStrip_idem: "mssqlStrip (''['' @ mssqlStrip s @ '']'') = mssqlStrip s"
  by (simp add: mssqlStrip_def)

section \<open>Properties of identifier quoting\<close>

text \<open>
  C10. Whatever the dialect (one the switch does not know included) and whatever the
  options, the identifier \<open>*\<close> comes back unchanged and nothing is thrown: the wildcard
  test is the first statement of the function.
\<close>

theorem quoteIdentifier_wildcard:
  "quoteIdentifier dialect ''*'' options = Inr ''*''"
  by (simp add: quoteIdentifier_def)

text \<open>
  C1, as stated, fails at the wildcard: with the default options the claim wants \<open>*\<close>
  wrapped in double quotes, and the function returns it bare.
\<close>

theorem quoteIdentifier_postgres_wildcard_unquoted:
  "quoteIdentifier ''postgres'' ''*'' None = Inr ''*'' \<and>
   \<not> postgresUnquoted ''*'' None \<and>
   ''*'' \<noteq> [dquote] @ removeTicks ''*'' dquote @ [dquote]"
  by (simp add: quoteIdentifier_def postgresUnquoted_def optionsQuoteIdentifiers_def)

text \<open>
  C1 (amended). For every identifier other than \<open>*\<close> and every options object, the
  Postgres branch returns the identifier stripped of its double quotes, unquoted, exactly
  when \<open>force\<close> is not \<open>true\<close>, \<open>quoteIdentifiers\<close> is \<open>false\<close>, the identifier contains
  neither \<open>.\<close> nor \<open>->\<close>, and the lowercased stripped identifier is no reserved word; in
  every other case (a missing options argument included) it returns the stripped
  identifier between double quotes. The two results never coincide. \<open>select\<close> with
  \<open>quoteIdentifiers: false\<close> is quoted, \<open>Foo\<close> is not.
\<close>

theorem quoteIdentifier_postgres:
  assumes "identifier \<noteq> ''*''"
  shows
    "quoteIdentifier ''postgres'' identifier (Some opts) =
       Inr (if force opts \<noteq> Given True \<and> quoteIdentifiers opts = Given False \<and>
               \<not> includesStr identifier ''.'' \<and> \<not> includesStr identifier ''->'' \<and>
               toLowerCase (removeTicks identifier dquote) \<notin> set postgresReservedWords
            then removeTicks identifier dquote
            else [dquote] @ removeTicks identifier dquote @ [dquote]) \<and>
     quoteIdentifier ''postgres'' identifier None =
       Inr ([dquote] @ removeTicks identifier dquote @ [dquote]) \<and>
     removeTicks identifier dquote \<noteq> [dquote] @ removeTicks identifier dquote @ [dquote] \<and>
     quoteIdentifier ''postgres'' ''select''
         (Some \<lparr>force = Omitted, quoteIdentifiers = Given False\<rparr>) =
       Inr ([dquote] @ ''select'' @ [dquote]) \<and>
     quoteIdentifier ''postgres'' ''Foo''
         (Some \<lparr>force = Omitted, quoteIdentifiers = Given False\<rparr>) = Inr ''Foo''"
proof -
  have forceP: "optionsForce (Some opts) \<noteq> Some True \<longleftrightarrow> force opts \<noteq> Given True"
    by (cases "force opts") (auto simp: optionsForce_def spreadOver_def)
  have quoteP: "optionsQuoteIdentifiers (Some opts) = Some False \<longleftrightarrow>
                  quoteIdentifiers opts = Given False"
    by (cases "quoteIdentifiers opts") (auto simp: optionsQuoteIdentifiers_def spreadOver_def)
  have general: "quoteIdentifier ''postgres'' identifier (Some opts) =
       Inr (if force opts \<noteq> Given True \<and> quoteIdentifiers opts = Given False \<and>
               \<not> includesStr identifier ''.'' \<and> \<not> includesStr identifier ''->'' \<and>
               toLowerCase (removeTicks identifier dquote) \<notin> set postgresReservedWords
            then removeTicks identifier dquote
            else [dquote] @ removeTicks identifier dquote @ [dquote])"
    using assms forceP quoteP
    by (simp add: quoteIdentifier_def postgresUnquoted_def addTicks_removeTicks Let_def)
  have missing: "quoteIdentifier ''postgres'' identifier None =
       Inr ([dquote] @ removeTicks identifier dquote @ [dquote])"
    using assms
    by (simp add: quoteIdentifier_def postgresUnquoted_def optionsQuoteIdentifiers_def
        addTicks_removeTicks Let_def)
  have apart: "removeTicks identifier dquote \<noteq>
                 [dquote] @ removeTicks identifier dquote @ [dquote]"
  proof
    assume "removeTicks identifier dquote = [dquote] @ removeTicks identifier dquote @ [dquote]"
    then have "length (removeTicks identifier dquote) =
                 length ([dquote] @ removeTicks identifier dquote @ [dquote])"
      by (rule arg_cong)
    then show False by simp
  qed
  have select: "quoteIdentifier ''postgres'' ''select''
         (Some \<lparr>force = Omitted, quoteIdentifiers = Given False\<rparr>) =
       Inr ([dquote] @ ''select'' @ [dquote])"
    by code_simp
  have foo: "quoteIdentifier ''postgres'' ''Foo''
         (Some \<lparr>force = Omitted, quoteIdentifiers = Given False\<rparr>) = Inr ''Foo''"
    by code_simp
  from general missing apart select foo show ?thesis by blast
qed

theorem quoteIdentifier_postgres_witness:
  "''users'' \<noteq> ''*'' \<and>
   quoteIdentifier ''postgres'' ''users'' None = Inr ([dquote] @ ''users'' @ [dquote])"
  using quoteIdentifier_postgres [of "''users''" "\<lparr>force = Omitted, quoteIdentifiers = Omitted\<rparr>"]
  by (simp add: removeTicks_def)

text \<open>
  C2, as stated, fails at the wildcard: for a dialect the switch does not know and the
  identifier \<open>*\<close> the function returns normally.
\<close>

theorem quoteIdentifier_unknown_dialect_wildcard:
  "quoteIdentifier ''oracle'' ''*'' None = Inr ''*''"
  by (simp add: quoteIdentifier_def)

text \<open>
  C2 (amended). For every dialect other than \<open>sqlite\<close>, \<open>mariadb\<close>, \<open>mysql\<close>, \<open>postgres\<close> and
  \<open>mssql\<close>, every identifier other than \<open>*\<close> and every options value, the function throws
  an \<open>Error\<close> whose message is \<open>Dialect "<dialect>" is not supported\<close>; it does not return.
\<close>

theorem quoteIdentifier_unsupported:
  assumes "dialect \<noteq> ''sqlite''" and "dialect \<noteq> ''mariadb''" and "dialect \<noteq> ''mysql''"
    and "dialect \<noteq> ''postgres''" and "dialect \<noteq> ''mssql''"
    and "identifier \<noteq> ''*''"
  shows "quoteIdentifier dialect identifier options =
           Inl (Error (''Dialect '' @ [dquote] @ dialect @ [dquote] @ '' is not supported''))"
  using assms by (simp add: quoteIdentifier_def unsupportedMessage_def)

theorem quoteIdentifier_unsupported_witness:
  "''oracle'' \<noteq> ''sqlite'' \<and> ''oracle'' \<noteq> ''mariadb'' \<and> ''oracle'' \<noteq> ''mysql'' \<and>
   ''oracle'' \<noteq> ''postgres'' \<and> ''oracle'' \<noteq> ''mssql'' \<and> ''x'' \<noteq> ''*'' \<and>
   quoteIdentifier ''oracle'' ''x'' None =
     Inl (Error (''Dialect '' @ [dquote] @ ''oracle'' @ [dquote] @ '' is not supported''))"
  using quoteIdentifier_unsupported [of "''oracle''" "''x''" None] by simp

text \<open>
  C3, as stated, fails at the wildcard: for \<open>mysql\<close> the identifier \<open>*\<close> comes back bare,
  not between backticks.
\<close>

theorem quoteIdentifier_mysql_wildcard_bare:
  "quoteIdentifier ''mysql'' ''*'' None = Inr ''*'' \<and>
   ''*'' \<noteq> [CHR ''`''] @ removeTicks ''*'' (CHR ''`'') @ [CHR ''`'']"
  by (simp add: quoteIdentifier_def)

text \<open>
  C3 (amended). For \<open>sqlite\<close>, \<open>mariadb\<close>, \<open>mysql\<close> and \<open>mssql\<close>, every identifier other than
  \<open>*\<close> and every options value, the result is the identifier stripped of the dialect's
  delimiters and wrapped in them (backticks; square brackets for \<open>mssql\<close>, which also
  strips single quotes), whatever the options; the wrapped text holds no delimiter.
  Quoting the result again, under any options, gives the same result, and
  \<open>quoteIdentifier("mssql", "a]b")\<close> is \<open>[ab]\<close>.
\<close>

theorem quoteIdentifier_delimited:
  assumes "identifier \<noteq> ''*''"
  shows
    "quoteIdentifier ''sqlite'' identifier options =
       Inr ([CHR ''`''] @ removeTicks identifier (CHR ''`'') @ [CHR ''`'']) \<and>
     quoteIdentifier ''mariadb'' identifier options =
       Inr ([CHR ''`''] @ removeTicks identifier (CHR ''`'') @ [CHR ''`'']) \<and>
     quoteIdentifier ''mysql'' identifier options =
       Inr ([CHR ''`''] @ removeTicks identifier (CHR ''`'') @ [CHR ''`'']) \<and>
     quoteIdentifier ''mssql'' identifier options = Inr (''['' @ mssqlStrip identifier @ '']'') \<and>
     CHR ''`'' \<notin> set (removeTicks identifier (CHR ''`'')) \<and>
     CHR ''['' \<notin> set (mssqlStrip identifier) \<and> CHR '']'' \<notin> set (mssqlStrip identifier) \<and>
     quoteIdentifier ''sqlite'' ([CHR ''`''] @ removeTicks identifier (CHR ''`'') @ [CHR ''`''])
         options' =
       Inr ([CHR ''`''] @ removeTicks identifier (CHR ''`'') @ [CHR ''`'']) \<and>
     quoteIdentifier ''mariadb'' ([CHR ''`''] @ removeTicks identifier (CHR ''`'') @ [CHR ''`''])
         options' =
       Inr ([CHR ''`''] @ removeTicks identifier (CHR ''`'') @ [CHR ''`'']) \<and>
     quoteIdentifier ''mysql'' ([CHR ''`''] @ removeTicks identifier (CHR ''`'') @ [CHR ''`''])
         options' =
       Inr ([CHR ''`''] @ removeTicks identifier (CHR ''`'') @ [CHR ''`'']) \<and>
     quoteIdentifier ''mssql'' (''['' @ mssqlStrip identifier @ '']'') options' =
       Inr (''['' @ mssqlStrip identifier @ '']'') \<and>
     quoteIdentifier ''mssql'' ''a]b'' options = Inr ''[ab]''"
proof -
  let ?t = "[CHR ''`''] @ removeTicks identifier (CHR ''`'') @ [CHR ''`'']"
  let ?m = "''['' @ mssqlStrip identifier @ '']''"
  have first: "quoteIdentifier ''sqlite'' identifier options = Inr ?t"
    "quoteIdentifier ''mariadb'' identifier options = Inr ?t"
    "quoteIdentifier ''mysql'' identifier options = Inr ?t"
    "quoteIdentifier ''mssql'' identifier options = Inr ?m"
    using assms by (simp_all add: quoteIdentifier_def addTicks_removeTicks)
  have free: "CHR ''`'' \<notin> set (removeTicks identifier (CHR ''`''))"
    "CHR ''['' \<notin> set (mssqlStrip identifier)" "CHR '']'' \<notin> set (mssqlStrip identifier)"
    by (simp_all add: removeTicks_def mssqlStrip_def)
  have nt: "?t \<noteq> ''*''" and nm: "?m \<noteq> ''*''" by simp_all
  have rt: "addTicks (removeTicks ?t (CHR ''`'')) (CHR ''`'') = ?t"
    unfolding removeTicks_wrapped addTicks_removeTicks ..
  have again: "quoteIdentifier ''sqlite'' ?t options' = Inr ?t"
    "quoteIdentifier ''mariadb'' ?t options' = Inr ?t"
    "quoteIdentifier ''mysql'' ?t options' = Inr ?t"
    using nt rt by (simp_all add: quoteIdentifier_def)
  have againm: "quoteIdentifier ''mssql'' ?m options' = Inr ?m"
    using nm mssqlStrip_idem [of "identifier"] by (simp add: quoteIdentifier_def)
  have ex: "quoteIdentifier ''mssql'' ''a]b'' options = Inr ''[ab]''"
    by (simp add: quoteIdentifier_def mssqlStrip_def)
  from first free again againm ex show ?thesis by blast
qed

theorem quoteIdentifier_delimited_witness:
  "''foo'' \<noteq> ''*'' \<and> quoteIdentifier ''mysql'' ''foo'' None = Inr ''`foo`'' \<and>
   quoteIdentifier ''mysql'' ''`foo`'' None = Inr ''`foo`''"
  using quoteIdentifier_delimited [of "''foo''" None None] by (simp add: removeTicks_def)

section \<open>Properties of table-name combination\<close>




section \<open>Properties of property lists\<close>

lemma getProp_setProp: "getProp (setProp ps k v) k' = (if k' = k then v else getProp ps k')"
  by (induction ps) auto

lemma hasProp_setProp: "hasProp (setProp ps k v) k' \<longleftrightarrow> k' = k \<or> hasProp ps k'"
  by (induction ps) auto


lemma set_setProp: "set (setProp ps k v) \<subseteq> insert (k, v) (set ps)"
  by (induction ps) auto



lemma getProp_deleteProp: "getProp (deleteProp ps k) k = JUndefined"
  by (induction ps) (auto simp: deleteProp_def)



section \<open>Properties of cloneDeep\<close>

lemma cloneCustomizer_False_cases:
  "cloneCustomizer False (JArray xs) = JUndefined"
  "cloneCustomizer False (JPlain ps) = JUndefined"
  "cloneCustomizer False (JFn r fn args) = JFn r fn args"
  "cloneCustomizer False (JInstance r ps c) = JInstance r ps c"
  "cloneCustomizer False (JBinary r bs) = JBinary r bs"
  "cloneCustomizer False (JArguments r ys) = JArguments r ys"
  "cloneCustomizer False JNull = JNull"
  "cloneCustomizer False JUndefined = JUndefined"
  "cloneCustomizer False (JBool b) = JUndefined"
  "cloneCustomizer False (JNum n) = JUndefined"
  "cloneCustomizer False (JStr s) = JUndefined"
  "cloneCustomizer False (JFunction r native ps None) = JUndefined"
  "cloneCustomizer False (JFunction r native ps (Some v)) = v"
  by (simp_all add: cloneCustomizer_def)

lemma baseClone_nested:
  "baseClone (cloneCustomizer False) byTag True v = sharedOrCloned v"
proof (induction v)
  case (JArray xs)
  then show ?case
    by (subst baseClone.simps) (simp add: cloneCustomizer_False_cases)
next
  case (JPlain ps)
  have "map (\<lambda>p. (fst p, baseClone (cloneCustomizer False) byTag True (snd p))) ps =
        map (\<lambda>p. (fst p, sharedOrCloned (snd p))) ps"
  proof (rule map_cong [OF refl])
    fix p assume "p \<in> set ps"
    moreover have "snd p \<in> Basic_BNFs.snds p" by (cases p) simp
    ultimately show "(fst p, baseClone (cloneCustomizer False) byTag True (snd p)) =
                     (fst p, sharedOrCloned (snd p))"
      using JPlain.IH by simp
  qed
  then show ?case
    by (subst baseClone.simps) (simp add: cloneCustomizer_False_cases)
next
  case (JFunction r native ps c)
  show ?case
    by (cases c; subst baseClone.simps) (simp_all add: cloneCustomizer_False_cases)
qed (subst baseClone.simps, simp add: cloneCustomizer_False_cases)+

lemma cloneDeep_array:
  "cloneDeep byTag (JArray xs) False = JArray (map sharedOrCloned xs)"
  unfolding cloneDeep_def cloneDeepWith_def
  by (subst baseClone.simps) (simp add: cloneCustomizer_False_cases baseClone_nested)

lemma cloneDeep_plain:
  "cloneDeep byTag (JPlain ps) False = JPlain (map (\<lambda>p. (fst p, sharedOrCloned (snd p))) ps)"
  unfolding cloneDeep_def cloneDeepWith_def
  by (subst baseClone.simps) (simp add: cloneCustomizer_False_cases baseClone_nested)

text \<open>
  C5, as stated, fails for the \<open>Fn\<close> wrapper: an \<open>Fn\<close> in the tree has a \<open>clone\<close> method, which
  would build another object, yet the clone of the tree holds the very same \<open>Fn\<close>.
\<close>

theorem cloneDeep_keeps_the_same_Fn:
  "cloneDeep id (JPlain [(StrKey ''f'', JFn (Ref 1) ''max'' (JArray []))]) False =
     JPlain [(StrKey ''f'', JFn (Ref 1) ''max'' (JArray []))] \<and>
   cloneMethod (JFn (Ref 1) ''max'' (JArray [])) = Some (JFn (CloneOf (Ref 1)) ''max'' (JArray [])) \<and>
   JFn (CloneOf (Ref 1)) ''max'' (JArray []) \<noteq> JFn (Ref 1) ''max'' (JArray [])"
  by (simp add: cloneDeep_plain)

text \<open>
  C5 (amended). For every tree and \<open>onlyPlain\<close> not set, \<open>cloneDeep\<close> rebuilds arrays and
  plain objects member by member. Every other value of type \<open>object\<close> in the tree (\<open>null\<close>,
  an \<open>Fn\<close>, any other object, with or without a \<open>clone\<close> method) passes through by
  reference: its \<open>clone\<close> method is not invoked. A value whose type is not \<open>object\<close> and that
  has a \<open>clone\<close> method (a function) is replaced by what that method returns, unless it
  returns \<open>undefined\<close>. Every remaining value passes through unchanged. This holds
  whatever lodash would do with the objects the customizer never leaves to it.
\<close>

theorem cloneDeep_shares_objects:
  "cloneDeep byTag (JArray xs) False = JArray (map sharedOrCloned xs) \<and>
   cloneDeep byTag (JPlain ps) False = JPlain (map (\<lambda>p. (fst p, sharedOrCloned (snd p))) ps) \<and>
   baseClone (cloneCustomizer False) byTag True v = sharedOrCloned v \<and>
   sharedOrCloned (JFn r fn args) = JFn r fn args \<and>
   sharedOrCloned (JInstance r qs c) = JInstance r qs c \<and>
   sharedOrCloned JNull = JNull \<and>
   sharedOrCloned (JFunction r native qs (Some w)) =
     (if w \<noteq> JUndefined then w else JFunction r native qs (Some w)) \<and>
   sharedOrCloned (JFunction r native qs None) = JFunction r native qs None"
  by (simp add: cloneDeep_array cloneDeep_plain baseClone_nested)


section \<open>Properties of flattenObjectDeep\<close>

lemma fold_concat_map:
  "fold f (concat (map g xs)) acc = fold (\<lambda>x. fold f (g x)) xs acc"
  by (induction xs arbitrary: acc) auto

lemma flattenObject_leafPaths:
  "flattenObject obj subPath acc = assignAll (leafPaths obj subPath) acc"
proof (induction obj subPath acc rule: flattenObject.induct)
  case (1 obj subPath flattenedObj)
  let ?path = "\<lambda>p. (case subPath of None \<Rightarrow> fst p
                      | Some s \<Rightarrow> if s \<noteq> [] then s @ ''.'' @ fst p else fst p)"
  let ?step = "\<lambda>p acc. if typeof (snd p) = ''object'' \<and> snd p \<noteq> JNull
                        then flattenObject (snd p) (Some (?path p)) acc
                        else setProp acc (StrKey (?path p)) (snd p)"
  let ?leaves = "\<lambda>p. if typeof (snd p) = ''object'' \<and> snd p \<noteq> JNull
                     then leafPaths (snd p) (Some (joinPath subPath (fst p)))
                     else [(joinPath subPath (fst p), snd p)]"
  have path: "?path p = joinPath subPath (fst p)" for p
    by (simp add: joinPath_def)
  have step: "?step p acc = assignAll (?leaves p) acc" if "p \<in> set (ownEntries obj)" for p acc
  proof (cases "typeof (snd p) = ''object'' \<and> snd p \<noteq> JNull")
    case True
    then show ?thesis
      using "1.IH" [OF that refl refl, of acc] by (simp add: path Let_def)
  next
    case False
    then show ?thesis by (auto simp: path assignAll_def)
  qed
  have "flattenObject obj subPath flattenedObj = fold ?step (ownEntries obj) flattenedObj"
    by (subst flattenObject.simps) (simp add: Let_def)
  also have "\<dots> = fold (\<lambda>p. assignAll (?leaves p)) (ownEntries obj) flattenedObj"
    by (rule fold_cong) (auto simp: step)
  also have "\<dots> = assignAll (leafPaths obj subPath) flattenedObj"
    unfolding assignAll_def by (subst leafPaths.simps) (simp add: fold_concat_map)
  finally show ?case .
qed

lemma leafPaths_leaf:
  "p \<in> set (leafPaths obj subPath) \<Longrightarrow> \<not> (typeof (snd p) = ''object'' \<and> snd p \<noteq> JNull)"
proof (induction obj subPath arbitrary: p rule: leafPaths.induct)
  case (1 obj subPath)
  from "1.prems" obtain e where e: "e \<in> set (ownEntries obj)"
    and p: "p \<in> set (if typeof (snd e) = ''object'' \<and> snd e \<noteq> JNull
                       then leafPaths (snd e) (Some (joinPath subPath (fst e)))
                       else [(joinPath subPath (fst e), snd e)])"
    by (subst (asm) leafPaths.simps) auto
  show ?case
  proof (cases "typeof (snd e) = ''object'' \<and> snd e \<noteq> JNull")
    case True
    with p have "p \<in> set (leafPaths (snd e) (Some (joinPath subPath (fst e))))" by simp
    from "1.IH" [OF e True this] show ?thesis .
  next
    case False
    with p have "snd p = snd e" by simp
    with False show ?thesis by simp
  qed
qed

lemma set_assignAll:
  "q \<in> set (assignAll es acc) \<Longrightarrow> q \<in> set acc \<or> (\<exists>p \<in> set es. q = (StrKey (fst p), snd p))"
proof (induction es arbitrary: acc)
  case Nil
  then show ?case by (simp add: assignAll_def)
next
  case (Cons e es)
  from Cons.prems have "q \<in> set (assignAll es (setProp acc (StrKey (fst e)) (snd e)))"
    by (simp add: assignAll_def)
  from Cons.IH [OF this] set_setProp [of acc "StrKey (fst e)" "snd e"]
  show ?case by auto
qed

text \<open>
  C6, as stated, fails on an array inside the object: the array is not kept as a leaf,
  the traversal goes into it and files its elements under their indices.
\<close>

theorem flattenObjectDeep_enters_arrays:
  "flattenObjectDeep (JPlain [(StrKey ''a'', JArray [JNum 1])]) =
     JPlain [(StrKey ''a.0'', JNum 1)]"
  by code_simp

text \<open>
  C6 (amended). \<open>flattenObjectDeep\<close> returns an input that is no plain object unchanged.
  For a plain object it returns a mapping of depth 1: the leaves of the tree, each
  written under the dot-joined path of the keys that lead to it (a later leaf with the
  same path replacing an earlier one), where the traversal goes into every value of type
  \<open>object\<close> other than \<open>null\<close> (nested plain objects, arrays by index and other objects by
  their own string keys alike) and the leaves are the remaining values. No value of the
  result is such an object. \<open>flattenObjectDeep({a:{b:1,c:{d:2}}})\<close> is
  \<open>{"a.b":1, "a.c.d":2}\<close>.
\<close>

theorem flattenObjectDeep_leaves:
  "flattenObjectDeep v =
     (if isPlainObject v then JPlain (assignAll (leafPaths v None) []) else v) \<and>
   (\<forall>p \<in> set (leafPaths v subPath). \<not> (typeof (snd p) = ''object'' \<and> snd p \<noteq> JNull)) \<and>
   (\<forall>q \<in> set (flattenObject v None []).
      \<not> (typeof (snd q) = ''object'' \<and> snd q \<noteq> JNull) \<and>
      (\<exists>p \<in> set (leafPaths v None). q = (StrKey (fst p), snd p))) \<and>
   flattenObjectDeep
       (JPlain [(StrKey ''a'', JPlain [(StrKey ''b'', JNum 1),
                                       (StrKey ''c'', JPlain [(StrKey ''d'', JNum 2)])])]) =
     JPlain [(StrKey ''a.b'', JNum 1), (StrKey ''a.c.d'', JNum 2)]"
proof -
  have first: "flattenObjectDeep v =
     (if isPlainObject v then JPlain (assignAll (leafPaths v None) []) else v)"
    by (simp add: flattenObjectDeep_def flattenObject_leafPaths)
  have leaves: "\<forall>p \<in> set (leafPaths v subPath). \<not> (typeof (snd p) = ''object'' \<and> snd p \<noteq> JNull)"
    using leafPaths_leaf by blast
  have stored: "\<forall>q \<in> set (flattenObject v None []).
      \<not> (typeof (snd q) = ''object'' \<and> snd q \<noteq> JNull) \<and>
      (\<exists>p \<in> set (leafPaths v None). q = (StrKey (fst p), snd p))"
  proof
    fix q assume "q \<in> set (flattenObject v None [])"
    then have "q \<in> set (assignAll (leafPaths v None) [])"
      by (simp add: flattenObject_leafPaths)
    from set_assignAll [OF this] obtain p
      where p: "p \<in> set (leafPaths v None)" and q: "q = (StrKey (fst p), snd p)" by auto
    from leafPaths_leaf [OF p] q p
    show "\<not> (typeof (snd q) = ''object'' \<and> snd q \<noteq> JNull) \<and>
          (\<exists>p \<in> set (leafPaths v None). q = (StrKey (fst p), snd p))" by auto
  qed
  have ex: "flattenObjectDeep
       (JPlain [(StrKey ''a'', JPlain [(StrKey ''b'', JNum 1),
                                       (StrKey ''c'', JPlain [(StrKey ''d'', JNum 2)])])]) =
     JPlain [(StrKey ''a.b'', JNum 1), (StrKey ''a.c.d'', JNum 2)]"
    by code_simp
  from first leaves stored ex show ?thesis by blast
qed

theorem flattenObjectDeep_leaves_witness:
  "flattenObjectDeep (JPlain [(StrKey ''n'', JStr ''John''), (StrKey ''a'', JArray [JNull])]) =
     JPlain (assignAll (leafPaths (JPlain [(StrKey ''n'', JStr ''John''), (StrKey ''a'', JArray [JNull])]) None) []) \<and>
   leafPaths (JPlain [(StrKey ''n'', JStr ''John''), (StrKey ''a'', JArray [JNull])]) None =
     [(''n'', JStr ''John''), (''a.0'', JNull)] \<and>
   flattenObject (JPlain [(StrKey ''n'', JStr ''John''), (StrKey ''a'', JArray [JNull])]) None [] =
     [(StrKey ''n'', JStr ''John''), (StrKey ''a.0'', JNull)]"
proof -
  have "leafPaths (JPlain [(StrKey ''n'', JStr ''John''), (StrKey ''a'', JArray [JNull])]) None =
     [(''n'', JStr ''John''), (''a.0'', JNull)]"
    by code_simp
  moreover have "flattenObject (JPlain [(StrKey ''n'', JStr ''John''), (StrKey ''a'', JArray [JNull])]) None [] =
     [(StrKey ''n'', JStr ''John''), (StrKey ''a.0'', JNull)]"
    by code_simp
  ultimately show ?thesis
    using flattenObjectDeep_leaves
      [of "JPlain [(StrKey ''n'', JStr ''John''), (StrKey ''a'', JArray [JNull])]" None]
    by simp
qed


section \<open>Properties of mapValueFieldNames\<close>

lemma mapValueFieldNames_fold:
  "mapValueFieldNames dataValues fieldsList model =
     fold (\<lambda>attr acc. if carriedOver dataValues model attr
                       then setProp acc (StrKey (storedUnder model attr))
                              (getProp dataValues (StrKey attr))
                       else acc) fieldsList []"
  unfolding mapValueFieldNames_def
  by (rule arg_cong [where f = "\<lambda>f. fold f fieldsList []"])
    (auto simp: fun_eq_iff carriedOver_def storedUnder_def split: option.splits)

lemma fold_store_getProp:
  "getProp (fold (\<lambda>attr acc. if sel attr then setProp acc (StrKey (tgt attr)) (val attr) else acc)
              fs acc) (StrKey k) =
     (case filter (\<lambda>attr. sel attr \<and> tgt attr = k) (rev fs) of
        [] \<Rightarrow> getProp acc (StrKey k)
      | attr # rest \<Rightarrow> val attr)"
proof (induction fs arbitrary: acc)
  case Nil
  then show ?case by simp
next
  case (Cons a fs)
  show ?case
    by (cases "filter (\<lambda>attr. sel attr \<and> tgt attr = k) (rev fs)")
      (auto simp: Cons.IH getProp_setProp)
qed

lemma fold_store_hasProp:
  "hasProp (fold (\<lambda>attr acc. if sel attr then setProp acc (StrKey (tgt attr)) (val attr) else acc)
              fs acc) key \<longleftrightarrow>
     hasProp acc key \<or> (\<exists>attr \<in> set fs. sel attr \<and> key = StrKey (tgt attr))"
  by (induction fs arbitrary: acc) (auto simp: hasProp_setProp)

text \<open>
  C9, as stated, fails when two names are stored under the same key: \<open>a\<close> is stored
  under its physical field \<open>b\<close>, then the name \<open>b\<close> overwrites it, and the entry no
  longer carries the value that \<open>dataValues\<close> has for \<open>a\<close>.
\<close>

theorem mapValueFieldNames_collision:
  "mapValueFieldNames [(StrKey ''a'', JNum 1), (StrKey ''b'', JNum 2)] [''a'', ''b'']
     \<lparr>rawAttributes = [''a'' \<mapsto> \<lparr>field = ''b'', fieldName = ''a'', type = OtherType ''STRING''\<rparr>],
      virtualAttributes = {}\<rparr> =
   [(StrKey ''b'', JNum 2)]"
  by (simp add: mapValueFieldNames_def)

text \<open>
  C9 (amended). \<open>mapValueFieldNames\<close> returns a new mapping whose keys are exactly the keys
  under which the carried names of \<open>fields\<close> are stored: a name is carried when its value
  in \<open>dataValues\<close> is not \<open>undefined\<close> and it is no virtual attribute, and it is stored under
  the declared physical field when that is non-empty and differs from the name, under the
  name itself otherwise. Each key holds the \<open>dataValues\<close> value of the last carried name
  in \<open>fields\<close> stored under it; so where no other carried name shares its key, every
  carried name's entry carries the value \<open>dataValues\<close> has for that name. The function
  builds the mapping from \<open>dataValues\<close> and never writes to it.
\<close>

theorem mapValueFieldNames_entries:
  "getProp (mapValueFieldNames dataValues fieldsList model) (StrKey k) =
     (case filter (\<lambda>attr. carriedOver dataValues model attr \<and> storedUnder model attr = k)
             (rev fieldsList) of
        [] \<Rightarrow> JUndefined
      | attr # rest \<Rightarrow> getProp dataValues (StrKey attr)) \<and>
   (hasProp (mapValueFieldNames dataValues fieldsList model) key \<longleftrightarrow>
      (\<exists>attr \<in> set fieldsList.
          carriedOver dataValues model attr \<and> key = StrKey (storedUnder model attr))) \<and>
   (name \<in> set fieldsList \<and> carriedOver dataValues model name \<and>
    (\<forall>attr \<in> set fieldsList.
        carriedOver dataValues model attr \<and> storedUnder model attr = storedUnder model name
          \<longrightarrow> attr = name)
    \<longrightarrow> getProp (mapValueFieldNames dataValues fieldsList model) (StrKey (storedUnder model name)) =
          getProp dataValues (StrKey name))"
proof -
  let ?sel = "carriedOver dataValues model" and ?tgt = "storedUnder model"
  let ?val = "\<lambda>attr. getProp dataValues (StrKey attr)"
  let ?res = "mapValueFieldNames dataValues fieldsList model"
  have lookup: "getProp ?res (StrKey k) =
     (case filter (\<lambda>attr. ?sel attr \<and> ?tgt attr = k) (rev fieldsList) of
        [] \<Rightarrow> JUndefined | attr # rest \<Rightarrow> ?val attr)" for k
    unfolding mapValueFieldNames_fold
    by (simp add: fold_store_getProp [where sel = ?sel and tgt = ?tgt and val = ?val]
        split: list.splits)
  have keys: "hasProp ?res key \<longleftrightarrow> (\<exists>attr \<in> set fieldsList. ?sel attr \<and> key = StrKey (?tgt attr))"
    unfolding mapValueFieldNames_fold
    by (simp add: fold_store_hasProp [where sel = ?sel and tgt = ?tgt and val = ?val])
  have single: "getProp ?res (StrKey (?tgt name)) = ?val name"
    if name: "name \<in> set fieldsList" "?sel name"
      and only: "\<forall>attr \<in> set fieldsList. ?sel attr \<and> ?tgt attr = ?tgt name \<longrightarrow> attr = name"
  proof -
    let ?hits = "filter (\<lambda>attr. ?sel attr \<and> ?tgt attr = ?tgt name) (rev fieldsList)"
    from name have "name \<in> set ?hits" by simp
    then obtain attr rest where hits: "?hits = attr # rest" by (cases ?hits) auto
    then have "attr \<in> set ?hits" by simp
    with only have "attr = name" by auto
    with hits show ?thesis by (simp add: lookup)
  qed
  from lookup [of k] keys single show ?thesis by blast
qed

theorem mapValueFieldNames_entries_witness:
  "getProp
     (mapValueFieldNames [(StrKey ''a'', JNum 1), (StrKey ''v'', JNum 3)] [''a'', ''v'', ''z'']
        \<lparr>rawAttributes = [''a'' \<mapsto> \<lparr>field = ''b'', fieldName = ''a'', type = OtherType ''STRING''\<rparr>],
         virtualAttributes = {''v''}\<rparr>)
     (StrKey ''b'') = JNum 1"
  using mapValueFieldNames_entries
    [of "[(StrKey ''a'', JNum 1), (StrKey ''v'', JNum 3)]" "[''a'', ''v'', ''z'']"
        "\<lparr>rawAttributes = [''a'' \<mapsto> \<lparr>field = ''b'', fieldName = ''a'', type = OtherType ''STRING''\<rparr>],
          virtualAttributes = {''v''}\<rparr>" "''b''" "StrKey ''b''" "''a''"]
  by (simp add: carriedOver_def storedUnder_def)


section \<open>Behaviour of mapWhereFieldNames\<close>

subsection \<open>The bound on the depth of the calls\<close>

lemma foldr_max_ge: "x \<in> set xs \<Longrightarrow> x \<le> foldr max xs (0::nat)"
  by (induction xs) auto

lemma foldr_max_le: "(\<forall>x \<in> set xs. x \<le> b) \<Longrightarrow> foldr max xs (0::nat) \<le> b"
  by (induction xs) auto

lemma depth_JPlain: "depth (JPlain ps) = Suc (depthProps ps)"
  by (simp add: depthProps_def)

lemma depthProps_member: "p \<in> set ps \<Longrightarrow> depth (snd p) \<le> depthProps ps"
  unfolding depthProps_def by (rule foldr_max_ge) auto

lemma depthProps_le: "(\<forall>p \<in> set ps. depth (snd p) \<le> b) \<Longrightarrow> depthProps ps \<le> b"
  unfolding depthProps_def by (rule foldr_max_le) auto

lemma getProp_cases: "getProp ps k = JUndefined \<or> (k, getProp ps k) \<in> set ps"
  by (induction ps) auto

lemma depth_getProp: "depth (getProp ps k) \<le> depthProps ps"
  using getProp_cases [of ps k] depthProps_member [of "(k, getProp ps k)" ps] by auto

lemma depthProps_setProp: "depth v \<le> b \<Longrightarrow> depthProps ps \<le> b \<Longrightarrow> depthProps (setProp ps k v) \<le> b"
proof (rule depthProps_le, rule ballI)
  fix p assume b: "depth v \<le> b" "depthProps ps \<le> b" and p: "p \<in> set (setProp ps k v)"
  from p set_setProp [of ps k v] have "p = (k, v) \<or> p \<in> set ps" by auto
  then show "depth (snd p) \<le> b"
    using b depthProps_member [of p ps] by auto
qed

lemma depthProps_deleteProp: "depthProps (deleteProp ps k) \<le> depthProps ps"
  by (rule depthProps_le) (auto simp: deleteProp_def depthProps_member)

lemma depthProps_renameKey: "depthProps (renameKey ra k ps) \<le> depthProps ps"
proof (cases ra)
  case None
  then show ?thesis by (simp add: renameKey_def)
next
  case (Some r)
  have "depthProps (deleteProp (setProp ps (StrKey (field r)) (getProp ps k)) k) \<le> depthProps ps"
    using depthProps_deleteProp [of "setProp ps (StrKey (field r)) (getProp ps k)" k]
      depthProps_setProp [OF depth_getProp [of ps k] order_refl, of "StrKey (field r)"]
    by simp
  with Some show ?thesis by (simp add: renameKey_def)
qed

lemma those_map_Some:
  assumes "\<forall>x \<in> set xs. \<exists>y. f x = Some y \<and> P y"
  shows "\<exists>ys. those (map f xs) = Some ys \<and> (\<forall>y \<in> set ys. P y)"
  using assms
proof (induction xs)
  case Nil
  then show ?case by simp
next
  case (Cons x xs)
  then obtain y ys where "f x = Some y" "P y" "those (map f xs) = Some ys" "\<forall>y \<in> set ys. P y"
    by auto
  then show ?case by simp
qed

lemma those_map_mono:
  assumes "\<And>x y. x \<in> set xs \<Longrightarrow> f x = Some y \<Longrightarrow> g x = Some y"
    and "those (map f xs) = Some ys"
  shows "those (map g xs) = Some ys"
  using assms
proof (induction xs arbitrary: ys)
  case Nil
  then show ?case by simp
next
  case (Cons x xs)
  from Cons.prems(2) obtain y zs where y: "f x = Some y" and zs: "those (map f xs) = Some zs"
    and ys: "ys = y # zs"
    by (auto split: option.splits)
  from Cons.prems(1) [OF _ y] have "g x = Some y" by simp
  moreover have "those (map g xs) = Some zs"
    using Cons.IH [OF _ zs] Cons.prems(1) by simp
  ultimately show ?case using ys by simp
qed

lemma andThen_simps: "andThen None f = None" "andThen (Some x) f = f x"
  by (simp_all add: andThen_def)

lemma fold_andThen_None: "fold (\<lambda>k state. andThen state (f k)) ks None = None"
  by (induction ks) (auto simp: andThen_simps)

lemma whereStep_mono:
  assumes opt: "\<And>opts r. f opts = Some r \<Longrightarrow> f' opts = Some r"
    and whr: "\<And>w r. g w = Some r \<Longrightarrow> g' w = Some r"
    and step: "whereStep f g model k s = Some r"
  shows "whereStep f' g' model k s = Some r"
proof -
  let ?ra = "lookupRaw model k"
  let ?a1 = "renameKey ?ra k s"
  let ?first = "\<lambda>f. if isPlainObject (getProp ?a1 k) \<and> \<not> exemptType ?ra
            then map_option (\<lambda>opts. setProp ?a1 k (whereClause opts))
                   (f \<lparr>attributes = JUndefined, whereClause = getProp ?a1 k\<rparr>)
            else Some ?a1"
  let ?elem = "\<lambda>g w. case w of JPlain p \<Rightarrow> map_option JPlain (g p) | _ \<Rightarrow> Some w"
  let ?second = "\<lambda>g a2. case getProp a2 k of
                JArray wheres \<Rightarrow>
                  map_option (\<lambda>ws. setProp a2 k (JArray ws)) (those (map (?elem g) wheres))
              | _ \<Rightarrow> Some a2"
  from step obtain a2 where a2: "?first f = Some a2" and r: "?second g a2 = Some r"
    by (auto simp: whereStep_def Let_def andThen_def split: option.splits)
  have first': "?first f' = Some a2"
    using a2 opt by (auto split: if_splits)
  have elem: "?elem g w = Some y \<Longrightarrow> ?elem g' w = Some y" for w y
    using whr by (cases w) auto
  have second': "?second g' a2 = Some r"
  proof (cases "getProp a2 k")
    case (JArray wheres)
    with r obtain ws where ws: "those (map (?elem g) wheres) = Some ws"
      and rr: "r = setProp a2 k (JArray ws)" by auto
    have "those (map (?elem g') wheres) = Some ws"
      by (rule those_map_mono [OF _ ws]) (rule elem)
    with JArray rr show ?thesis by simp
  qed (use r in auto)
  show ?thesis
    using first' second' by (simp add: whereStep_def Let_def andThen_def)
qed

lemma fold_whereStep_mono:
  assumes "\<And>k s r. step k s = Some r \<Longrightarrow> step' k s = Some r"
    and "fold (\<lambda>k state. andThen state (step k)) ks (Some s) = Some r"
  shows "fold (\<lambda>k state. andThen state (step' k)) ks (Some s) = Some r"
  using assms(2)
proof (induction ks arbitrary: s)
  case Nil
  then show ?case by simp
next
  case (Cons k ks)
  show ?case
  proof (cases "step k s")
    case None
    with Cons.prems show ?thesis by (simp add: andThen_simps fold_andThen_None)
  next
    case (Some s')
    with Cons.prems have "fold (\<lambda>k state. andThen state (step k)) ks (Some s') = Some r"
      by (simp add: andThen_simps)
    from Cons.IH [OF this] assms(1) [OF Some] show ?thesis by (simp add: andThen_simps)
  qed
qed

lemma mappers_fuel_Suc:
  "(mapOptionFieldNames n opts model = Some r \<longrightarrow> mapOptionFieldNames (Suc n) opts model = Some r) \<and>
   (mapWhereFieldNames n attrs model = Some r' \<longrightarrow> mapWhereFieldNames (Suc n) attrs model = Some r')"
proof (induction n arbitrary: opts attrs r r')
  case 0
  then show ?case by simp
next
  case (Suc n)
  have whr: "mapWhereFieldNames n w model = Some x \<Longrightarrow> mapWhereFieldNames (Suc n) w model = Some x" for w x
    using Suc.IH by blast
  have opt: "mapOptionFieldNames n p model = Some x \<Longrightarrow> mapOptionFieldNames (Suc n) p model = Some x" for p x
    using Suc.IH by blast
  have first: "mapOptionFieldNames (Suc (Suc n)) opts model = Some r"
    if "mapOptionFieldNames (Suc n) opts model = Some r"
    using that whr by (auto simp: Let_def split: jsval.splits)
  have second: "mapWhereFieldNames (Suc (Suc n)) attrs model = Some r'"
    if "mapWhereFieldNames (Suc n) attrs model = Some r'"
  proof -
    have "fold (\<lambda>attribute state. andThen state
              (whereStep (\<lambda>opts. mapOptionFieldNames (Suc n) opts model)
                 (\<lambda>w. mapWhereFieldNames (Suc n) w model) model attribute))
            (getComplexKeys attrs) (Some attrs) = Some r'"
    proof (rule fold_whereStep_mono)
      show "fold (\<lambda>attribute state. andThen state
              (whereStep (\<lambda>opts. mapOptionFieldNames n opts model)
                 (\<lambda>w. mapWhereFieldNames n w model) model attribute))
            (getComplexKeys attrs) (Some attrs) = Some r'"
        using that by simp
    next
      fix k s x
      assume "whereStep (\<lambda>opts. mapOptionFieldNames n opts model)
                 (\<lambda>w. mapWhereFieldNames n w model) model k s = Some x"
      then show "whereStep (\<lambda>opts. mapOptionFieldNames (Suc n) opts model)
                 (\<lambda>w. mapWhereFieldNames (Suc n) w model) model k s = Some x"
        by (rule whereStep_mono [rotated 2]) (rule opt, assumption, rule whr, assumption)
    qed
    then show ?thesis by simp
  qed
  from first second show ?case by blast
qed

lemma mapWhereFieldNames_fuel_mono:
  "mapWhereFieldNames n attrs model = Some r \<Longrightarrow> n \<le> m \<Longrightarrow>
     mapWhereFieldNames m attrs model = Some r"
proof (induction m)
  case 0
  then show ?case by simp
next
  case (Suc m)
  show ?case
  proof (cases "n = Suc m")
    case True
    with Suc.prems show ?thesis by simp
  next
    case False
    with Suc.prems have "n \<le> m" by simp
    from Suc.IH [OF Suc.prems(1) this] mappers_fuel_Suc [of m _ model _ attrs r]
    show ?thesis by blast
  qed
qed


lemma depth_JArray_member: "w \<in> set ws \<Longrightarrow> Suc (depth w) \<le> depth (JArray ws)"
  by (simp add: foldr_max_ge)

lemma depth_JArray_le: "(\<forall>w \<in> set ws. Suc (depth w) \<le> b) \<Longrightarrow> 0 < b \<Longrightarrow> depth (JArray ws) \<le> b"
proof -
  assume a: "\<forall>w \<in> set ws. Suc (depth w) \<le> b" and b: "0 < b"
  have "foldr max (map depth ws) 0 \<le> b - 1"
    by (rule foldr_max_le) (use a in auto)
  with b show ?thesis by simp
qed

lemma whereStep_returns:
  assumes s: "depthProps s \<le> D"
    and opt: "\<And>w. Suc (depthProps w) \<le> D \<Longrightarrow>
                \<exists>opts' w'. f \<lparr>attributes = JUndefined, whereClause = JPlain w\<rparr> = Some opts' \<and>
                   whereClause opts' = JPlain w' \<and> depthProps w' \<le> depthProps w"
    and whr: "\<And>q. Suc (Suc (depthProps q)) \<le> D \<Longrightarrow>
                \<exists>q'. g q = Some q' \<and> depthProps q' \<le> depthProps q"
  shows "\<exists>s'. whereStep f g model k s = Some s' \<and> depthProps s' \<le> D"
proof -
  let ?ra = "lookupRaw model k"
  let ?a1 = "renameKey ?ra k s"
  let ?first = "if isPlainObject (getProp ?a1 k) \<and> \<not> exemptType ?ra
            then map_option (\<lambda>opts. setProp ?a1 k (whereClause opts))
                   (f \<lparr>attributes = JUndefined, whereClause = getProp ?a1 k\<rparr>)
            else Some ?a1"
  let ?elem = "\<lambda>w. case w of JPlain p \<Rightarrow> map_option JPlain (g p) | _ \<Rightarrow> Some w"
  let ?second = "\<lambda>a2. case getProp a2 k of
                JArray wheres \<Rightarrow>
                  map_option (\<lambda>ws. setProp a2 k (JArray ws)) (those (map ?elem wheres))
              | _ \<Rightarrow> Some a2"
  have a1: "depthProps ?a1 \<le> D"
    using depthProps_renameKey [of ?ra k s] s by simp
  have "\<exists>a2. ?first = Some a2 \<and> depthProps a2 \<le> D"
  proof (cases "isPlainObject (getProp ?a1 k) \<and> \<not> exemptType ?ra")
    case True
    then obtain w where w: "getProp ?a1 k = JPlain w" by (cases "getProp ?a1 k") auto
    have "depth (JPlain w) \<le> D"
      using depth_getProp [of ?a1 k] a1 w by simp
    then have wD: "Suc (depthProps w) \<le> D" by (simp add: depthProps_def)
    from opt [OF this] obtain opts' w' where o: "f \<lparr>attributes = JUndefined, whereClause = JPlain w\<rparr> = Some opts'"
      and w': "whereClause opts' = JPlain w'" "depthProps w' \<le> depthProps w" by blast
    have "depth (JPlain w') \<le> D" using w' wD by (simp add: depthProps_def)
    then have "depthProps (setProp ?a1 k (JPlain w')) \<le> D"
      using a1 by (rule depthProps_setProp)
    with True w o w' show ?thesis by simp
  next
    case False
    with a1 show ?thesis by auto
  qed
  then obtain a2 where a2: "?first = Some a2" and a2D: "depthProps a2 \<le> D" by blast
  have "\<exists>s'. ?second a2 = Some s' \<and> depthProps s' \<le> D"
  proof (cases "getProp a2 k")
    case (JArray wheres)
    have arr: "depth (JArray wheres) \<le> D"
      using depth_getProp [of a2 k] a2D JArray by simp
    have "\<forall>w \<in> set wheres. \<exists>y. ?elem w = Some y \<and> Suc (depth y) \<le> D"
    proof
      fix w assume w: "w \<in> set wheres"
      from depth_JArray_member [OF this] arr have wD: "Suc (depth w) \<le> D" by simp
      show "\<exists>y. ?elem w = Some y \<and> Suc (depth y) \<le> D"
      proof (cases w)
        case (JPlain q)
        with wD have "Suc (Suc (depthProps q)) \<le> D" by (simp add: depthProps_def)
        from whr [OF this] obtain q' where "g q = Some q'" "depthProps q' \<le> depthProps q" by blast
        with JPlain wD show ?thesis by (simp add: depthProps_def)
      qed (use wD in auto)
    qed
    from those_map_Some [where P = "\<lambda>y. Suc (depth y) \<le> D", OF this]
    obtain ws where ws: "those (map ?elem wheres) = Some ws" "\<forall>y \<in> set ws. Suc (depth y) \<le> D"
      by blast
    from arr have "0 < D" by simp
    with ws(2) have "depth (JArray ws) \<le> D" by (rule depth_JArray_le)
    then have "depthProps (setProp a2 k (JArray ws)) \<le> D"
      using a2D by (rule depthProps_setProp)
    with JArray ws(1) show ?thesis by simp
  qed (use a2D in auto)
  then obtain s' where "?second a2 = Some s'" "depthProps s' \<le> D" by blast
  with a2 show ?thesis
    by (simp add: whereStep_def Let_def andThen_simps)
qed

lemma fold_whereStep_returns:
  assumes "\<And>k s. depthProps s \<le> D \<Longrightarrow> \<exists>s'. step k s = Some s' \<and> depthProps s' \<le> D"
    and "depthProps s \<le> D"
  shows "\<exists>r. fold (\<lambda>k state. andThen state (step k)) ks (Some s) = Some r \<and> depthProps r \<le> D"
  using assms(2)
proof (induction ks arbitrary: s)
  case Nil
  then show ?case by simp
next
  case (Cons k ks)
  from assms(1) [OF Cons.prems] obtain s' where s': "step k s = Some s'" "depthProps s' \<le> D"
    by blast
  from Cons.IH [OF s'(2)] s'(1) show ?case by (simp add: andThen_simps)
qed

lemma mapWhereFieldNames_enough:
  "2 * depthProps attrs < n \<Longrightarrow>
     \<exists>r. mapWhereFieldNames n attrs model = Some r \<and> depthProps r \<le> depthProps attrs"
proof (induction n arbitrary: attrs rule: less_induct)
  case (less n)
  then obtain m where n: "n = Suc m" by (cases n) auto
  let ?D = "depthProps attrs"
  from less.prems n have m: "2 * ?D \<le> m" by simp
  have whr: "\<exists>q'. mapWhereFieldNames m q model = Some q' \<and> depthProps q' \<le> depthProps q"
    if "Suc (Suc (depthProps q)) \<le> ?D" for q
    by (rule less.IH) (use that m n in auto)
  have opt: "\<exists>opts' w'. mapOptionFieldNames m \<lparr>attributes = JUndefined, whereClause = JPlain w\<rparr> model
                 = Some opts' \<and> whereClause opts' = JPlain w' \<and> depthProps w' \<le> depthProps w"
    if "Suc (depthProps w) \<le> ?D" for w
  proof -
    from that m obtain m' where m': "m = Suc m'" by (cases m) auto
    have "\<exists>w'. mapWhereFieldNames m' w model = Some w' \<and> depthProps w' \<le> depthProps w"
      by (rule less.IH) (use that m m' n in auto)
    then obtain w' where "mapWhereFieldNames m' w model = Some w'" "depthProps w' \<le> depthProps w"
      by blast
    then show ?thesis by (simp add: m')
  qed
  have "\<exists>r. fold (\<lambda>attribute state. andThen state
              (whereStep (\<lambda>opts. mapOptionFieldNames m opts model)
                 (\<lambda>w. mapWhereFieldNames m w model) model attribute))
            (getComplexKeys attrs) (Some attrs) = Some r \<and> depthProps r \<le> ?D"
  proof (rule fold_whereStep_returns)
    fix k s assume "depthProps s \<le> ?D"
    then show "\<exists>s'. whereStep (\<lambda>opts. mapOptionFieldNames m opts model)
                 (\<lambda>w. mapWhereFieldNames m w model) model k s = Some s' \<and> depthProps s' \<le> ?D"
      by (rule whereStep_returns) (use opt whr in auto)
  qed simp
  then show ?case by (simp add: n)
qed

lemma mapWhereFieldNames_returns:
  assumes "2 * depthProps attrs < n"
  shows "\<exists>r. \<forall>m \<ge> n. mapWhereFieldNames m attrs model = Some r"
proof -
  from mapWhereFieldNames_enough [OF assms] obtain r
    where "mapWhereFieldNames n attrs model = Some r" by blast
  then have "\<forall>m \<ge> n. mapWhereFieldNames m attrs model = Some r"
    using mapWhereFieldNames_fuel_mono by blast
  then show ?thesis ..
qed

subsection \<open>Renamed keys\<close>

text \<open>
  A key that is renamed to another key takes its value along unchanged: neither mapper is
  called for it, whatever the value is.
\<close>

lemma whereStep_renamed_key:
  assumes "lookupRaw model k = Some ra" and "field ra \<noteq> fieldName ra"
  shows "whereStep f g model k s =
           Some (deleteProp (setProp s (StrKey (field ra)) (getProp s k)) k)"
  using assms
  by (simp add: whereStep_def renameKey_def getProp_deleteProp andThen_simps)

text \<open>
  C7. The where-mapper is meant to rename a key and to map the plain structure under it.
  When a key has been renamed, the code has already deleted it, and the two tests that
  follow read the deleted key: the structure that moved to the physical key is left as it
  was. With \<open>a\<close> stored in column \<open>b\<close> and \<open>c\<close> in column \<open>d\<close>, the clause \<open>{a: {c: 1}}\<close>
  becomes \<open>{b: {c: 1}}\<close>, while under a key that is not renamed the same structure is
  mapped: \<open>{x: {c: 1}}\<close> becomes \<open>{x: {d: 1}}\<close>.
\<close>

theorem mapWhereFieldNames_renamed_key_left_unmapped:
  "mapWhereFieldNames 3 [(StrKey ''a'', JPlain [(StrKey ''c'', JNum 1)])]
     \<lparr>rawAttributes =
        [''a'' \<mapsto> \<lparr>field = ''b'', fieldName = ''a'', type = OtherType ''STRING''\<rparr>,
         ''c'' \<mapsto> \<lparr>field = ''d'', fieldName = ''c'', type = OtherType ''STRING''\<rparr>],
      virtualAttributes = {}\<rparr> =
     Some [(StrKey ''b'', JPlain [(StrKey ''c'', JNum 1)])] \<and>
   mapWhereFieldNames 3 [(StrKey ''x'', JPlain [(StrKey ''c'', JNum 1)])]
     \<lparr>rawAttributes =
        [''a'' \<mapsto> \<lparr>field = ''b'', fieldName = ''a'', type = OtherType ''STRING''\<rparr>,
         ''c'' \<mapsto> \<lparr>field = ''d'', fieldName = ''c'', type = OtherType ''STRING''\<rparr>],
      virtualAttributes = {}\<rparr> =
     Some [(StrKey ''x'', JPlain [(StrKey ''d'', JNum 1)])]"
  by (simp add: numeral_3_eq_3 getComplexKeys_def andThen_def whereStep_def lookupRaw_def
      renameKey_def exemptType_def deleteProp_def)

text \<open>
  The exemption of \<open>HSTORE\<close> and \<open>JSON\<close> attributes guards the plain-object branch only: a
  plain object under a \<open>JSON\<close> attribute is left alone, the plain objects in an array
  under it are mapped.
\<close>

lemma mapWhereFieldNames_json_array_mapped:
  "mapWhereFieldNames 3 [(StrKey ''data'', JPlain [(StrKey ''c'', JNum 1)])]
     \<lparr>rawAttributes =
        [''data'' \<mapsto> \<lparr>field = ''data'', fieldName = ''data'', type = JSON\<rparr>,
         ''c'' \<mapsto> \<lparr>field = ''d'', fieldName = ''c'', type = OtherType ''STRING''\<rparr>],
      virtualAttributes = {}\<rparr> =
     Some [(StrKey ''data'', JPlain [(StrKey ''c'', JNum 1)])] \<and>
   mapWhereFieldNames 3 [(StrKey ''data'', JArray [JPlain [(StrKey ''c'', JNum 1)]])]
     \<lparr>rawAttributes =
        [''data'' \<mapsto> \<lparr>field = ''data'', fieldName = ''data'', type = JSON\<rparr>,
         ''c'' \<mapsto> \<lparr>field = ''d'', fieldName = ''c'', type = OtherType ''STRING''\<rparr>],
      virtualAttributes = {}\<rparr> =
     Some [(StrKey ''data'', JArray [JPlain [(StrKey ''d'', JNum 1)]])]"
  by (simp add: numeral_3_eq_3 getComplexKeys_def andThen_def whereStep_def lookupRaw_def
      renameKey_def exemptType_def deleteProp_def)


section \<open>Properties of mergeDefaults\<close>

subsection \<open>Index keys\<close>







subsection \<open>One key of the source\<close>



















end
